theory Spec2Isabelle
  imports Complex_Main
begin

section \<open>Action noise wrapper: the model\<close>

text \<open>
  The development follows \<^verbatim>\<open>dm_env_wrappers/_src/action_noise.py\<close>: the class
  \<^verbatim>\<open>ActionNoiseWrapper\<close> (constructor and \<^verbatim>\<open>step\<close>) and the function
  \<^verbatim>\<open>_corrupt_nested_action\<close> with its inner \<^verbatim>\<open>_corrupt_action\<close>.

  Python objects that are mutated or shared (numpy arrays, \<^verbatim>\<open>RandomState\<close> objects) live
  in an explicit store and are named by references. Exceptions are values of the type
  \<open>error\<close>; a computation that can raise returns \<open>(error + 'a) \<times> world\<close>, so that the
  store reached at the moment of the exception is visible.

  Array elements are floating-point values with their special values: a number, the two
  infinities, or NaN. The numbers are idealised as reals: rounding, overflow and the sign of
  zero are outside the model.
\<close>

subsection \<open>Errors\<close>

datatype error =
    InvalidScale
    \<comment> \<open>\<^verbatim>\<open>ValueError("scale must be non-negative.")\<close> of the constructor\<close>
  | AssertionError
    \<comment> \<open>the failed \<^verbatim>\<open>assert isinstance(self._random_state, np.random.RandomState)\<close>\<close>
  | StructureMismatch
    \<comment> \<open>\<^verbatim>\<open>ValueError\<close> or \<^verbatim>\<open>TypeError\<close> of \<^verbatim>\<open>tree.map_structure\<close>\<close>
  | NegativeStddev
    \<comment> \<open>\<^verbatim>\<open>ValueError("scale < 0")\<close> of \<^verbatim>\<open>RandomState.normal\<close>\<close>
  | CastingError
    \<comment> \<open>\<^verbatim>\<open>UFuncTypeError\<close>: the result cannot be cast to the output array (rule same_kind)\<close>
  | ReadOnlyError
    \<comment> \<open>\<^verbatim>\<open>ValueError\<close>: output array is read-only\<close>
  | BroadcastError
    \<comment> \<open>\<^verbatim>\<open>ValueError\<close>: operands could not be broadcast together, or not to the output\<close>
  | AttributeError
    \<comment> \<open>a method looked up on an object that has none of that name\<close>
  | SeedError
    \<comment> \<open>\<^verbatim>\<open>ValueError\<close> of \<^verbatim>\<open>RandomState(seed)\<close> for a seed it refuses\<close>
  | EnvError string
    \<comment> \<open>whatever the wrapped environment raises\<close>

subsection \<open>numpy arrays\<close>

text \<open>
  The elements, and the arithmetic of IEEE 754 on them: NaN propagates, the sum of opposite
  infinities and the product of an infinity and zero are NaN, and every comparison with NaN
  is false. \<open>f_max\<close> and \<open>f_min\<close> are numpy's \<^verbatim>\<open>maximum\<close> and \<^verbatim>\<open>minimum\<close>, which
  propagate NaN.
\<close>

datatype f64 = NaN | MinusInf | Num real | PlusInf

fun f_neg :: "f64 \<Rightarrow> f64" where
  "f_neg NaN = NaN"
| "f_neg MinusInf = PlusInf"
| "f_neg (Num x) = Num (- x)"
| "f_neg PlusInf = MinusInf"

fun f_add :: "f64 \<Rightarrow> f64 \<Rightarrow> f64" where
  "f_add (Num x) (Num y) = Num (x + y)"
| "f_add NaN y = NaN"
| "f_add x NaN = NaN"
| "f_add PlusInf MinusInf = NaN"
| "f_add MinusInf PlusInf = NaN"
| "f_add PlusInf y = PlusInf"
| "f_add x PlusInf = PlusInf"
| "f_add MinusInf y = MinusInf"
| "f_add x MinusInf = MinusInf"

definition f_sub :: "f64 \<Rightarrow> f64 \<Rightarrow> f64" where
  "f_sub x y = f_add x (f_neg y)"

fun f_mul :: "f64 \<Rightarrow> f64 \<Rightarrow> f64" where
  "f_mul (Num x) (Num y) = Num (x * y)"
| "f_mul NaN y = NaN"
| "f_mul x NaN = NaN"
| "f_mul (Num x) PlusInf = (if x = 0 then NaN else if 0 < x then PlusInf else MinusInf)"
| "f_mul (Num x) MinusInf = (if x = 0 then NaN else if 0 < x then MinusInf else PlusInf)"
| "f_mul PlusInf (Num y) = (if y = 0 then NaN else if 0 < y then PlusInf else MinusInf)"
| "f_mul MinusInf (Num y) = (if y = 0 then NaN else if 0 < y then MinusInf else PlusInf)"
| "f_mul PlusInf PlusInf = PlusInf"
| "f_mul MinusInf MinusInf = PlusInf"
| "f_mul PlusInf MinusInf = MinusInf"
| "f_mul MinusInf PlusInf = MinusInf"

fun f_less :: "f64 \<Rightarrow> f64 \<Rightarrow> bool" where
  "f_less (Num x) (Num y) = (x < y)"
| "f_less NaN y = False"
| "f_less x NaN = False"
| "f_less PlusInf y = False"
| "f_less x MinusInf = False"
| "f_less MinusInf y = True"
| "f_less x PlusInf = True"


definition f_max :: "f64 \<Rightarrow> f64 \<Rightarrow> f64" where
  "f_max x y = (if x = NaN \<or> y = NaN then NaN else if f_less x y then y else x)"

definition f_min :: "f64 \<Rightarrow> f64 \<Rightarrow> f64" where
  "f_min x y = (if x = NaN \<or> y = NaN then NaN else if f_less y x then y else x)"


text \<open>
  An array is its dtype (only the kind matters here: floating or integer), its shape, its
  elements in row-major order, and its flag \<^verbatim>\<open>writeable\<close>.
\<close>

datatype dtype = FloatDType | IntDType

record ndarray =
  dtype :: dtype
  shape :: "nat list"
  elems :: "f64 list"
  writeable :: bool

text \<open>All multi-indices of a shape, in row-major order.\<close>

fun indices :: "nat list \<Rightarrow> nat list list" where
  "indices [] = [[]]"
| "indices (d # ds) = concat (map (\<lambda>i. map ((#) i) (indices ds)) [0..<d])"

text \<open>The position of a multi-index in the row-major element list.\<close>

fun offset_acc :: "nat \<Rightarrow> nat list \<Rightarrow> nat list \<Rightarrow> nat" where
  "offset_acc acc (d # ds) (i # is) = offset_acc (acc * d + i) ds is"
| "offset_acc acc _ _ = acc"

definition offset :: "nat list \<Rightarrow> nat list \<Rightarrow> nat" where
  "offset sh idx = offset_acc 0 sh idx"

text \<open>
  Broadcasting, numpy's rule: shapes are aligned at their last axis, and an axis of length 1
  is repeated. \<open>proj sh idx\<close> is the index into an array of shape \<open>sh\<close> that an index
  \<open>idx\<close> of the (at least as long) broadcast shape reads.
\<close>

definition proj :: "nat list \<Rightarrow> nat list \<Rightarrow> nat list" where
  "proj sh idx = rev (map2 (\<lambda>d i. if d = 1 then 0 else i) (rev sh) (rev idx))"

definition bget :: "ndarray \<Rightarrow> nat list \<Rightarrow> f64" where
  "bget a idx = elems a ! offset (shape a) (proj (shape a) idx)"

text \<open>
  \<open>broadcastable s t\<close>: an array of shape \<open>s\<close> can be broadcast to the shape \<open>t\<close>. From
  the last axis on, each axis of \<open>s\<close> has the length of the axis of \<open>t\<close> or length 1.
\<close>

fun broadcastable_rev :: "nat list \<Rightarrow> nat list \<Rightarrow> bool" where
  "broadcastable_rev [] ys = True"
| "broadcastable_rev (x # xs) [] = False"
| "broadcastable_rev (x # xs) (y # ys) = ((x = y \<or> x = 1) \<and> broadcastable_rev xs ys)"

definition broadcastable :: "nat list \<Rightarrow> nat list \<Rightarrow> bool" where
  "broadcastable s t = broadcastable_rev (rev s) (rev t)"

text \<open>The common shape of two operands, on the reversed shapes (last axis first).\<close>

fun bshape_rev :: "nat list \<Rightarrow> nat list \<Rightarrow> nat list option" where
  "bshape_rev [] ys = Some ys"
| "bshape_rev (x # xs) [] = Some (x # xs)"
| "bshape_rev (x # xs) (y # ys) =
     (if x = y \<or> y = 1 then map_option ((#) x) (bshape_rev xs ys)
      else if x = 1 then map_option ((#) y) (bshape_rev xs ys)
      else None)"

definition broadcast_shapes :: "nat list \<Rightarrow> nat list \<Rightarrow> nat list option" where
  "broadcast_shapes s t = map_option rev (bshape_rev (rev s) (rev t))"

text \<open>
  Type promotion and the casting rule same_kind of in-place operations: a floating result
  cannot be written into an integer array.
\<close>

definition result_type :: "dtype \<Rightarrow> dtype \<Rightarrow> dtype" where
  "result_type k1 k2 = (if k1 = FloatDType \<or> k2 = FloatDType then FloatDType else IntDType)"

definition can_cast :: "dtype \<Rightarrow> dtype \<Rightarrow> bool" where
  "can_cast from to \<longleftrightarrow> \<not> (from = FloatDType \<and> to = IntDType)"

text \<open>\<^verbatim>\<open>a - b\<close> on arrays: a new array of the common shape.\<close>

definition subtract :: "ndarray \<Rightarrow> ndarray \<Rightarrow> error + ndarray" where
  "subtract a b =
     (case broadcast_shapes (shape a) (shape b) of
        None \<Rightarrow> Inl BroadcastError
      | Some r \<Rightarrow>
          Inr \<lparr>dtype = result_type (dtype a) (dtype b), shape = r,
               elems = map (\<lambda>idx. f_sub (bget a idx) (bget b idx)) (indices r),
               writeable = True\<rparr>)"

text \<open>\<^verbatim>\<open>scale * a\<close> for a Python float \<^verbatim>\<open>scale\<close>: a new floating array.\<close>

definition scalar_mul :: "real \<Rightarrow> ndarray \<Rightarrow> ndarray" where
  "scalar_mul c a =
     \<lparr>dtype = FloatDType, shape = shape a, elems = map (f_mul (Num c)) (elems a),
      writeable = True\<rparr>"

text \<open>
  \<^verbatim>\<open>a += b\<close>: the sum is written into \<open>a\<close>. numpy refuses before writing anything
  when \<open>a\<close> is read-only, when the result cannot be cast to the dtype of \<open>a\<close>, or when \<open>b\<close>
  does not broadcast to the shape of \<open>a\<close>.
\<close>

definition iadd :: "ndarray \<Rightarrow> ndarray \<Rightarrow> error + ndarray" where
  "iadd a b =
     (if \<not> writeable a then Inl ReadOnlyError
      else if \<not> can_cast (result_type (dtype a) (dtype b)) (dtype a) then Inl CastingError
      else if \<not> broadcastable (shape b) (shape a) then Inl BroadcastError
      else Inr (a\<lparr>elems := map (\<lambda>idx. f_add (bget a idx) (bget b idx)) (indices (shape a))\<rparr>))"

text \<open>
  \<^verbatim>\<open>np.clip(a, lo, hi, out=a)\<close>, which numpy computes as
  \<^verbatim>\<open>minimum(maximum(a, lo), hi)\<close>, written into \<open>a\<close>, with the refusals of an in-place
  operation.
\<close>

definition clip_out :: "ndarray \<Rightarrow> ndarray \<Rightarrow> ndarray \<Rightarrow> error + ndarray" where
  "clip_out a lo hi =
     (if \<not> writeable a then Inl ReadOnlyError
      else if \<not> can_cast (result_type (dtype a) (result_type (dtype lo) (dtype hi))) (dtype a)
      then Inl CastingError
      else if \<not> (broadcastable (shape lo) (shape a) \<and> broadcastable (shape hi) (shape a))
      then Inl BroadcastError
      else Inr (a\<lparr>elems :=
             map (\<lambda>idx. f_min (f_max (bget a idx) (bget lo idx)) (bget hi idx))
               (indices (shape a))\<rparr>))"






text \<open>An array holds as many elements as its shape says.\<close>

definition well_formed :: "ndarray \<Rightarrow> bool" where
  "well_formed a \<longleftrightarrow> length (elems a) = prod_list (shape a)"

subsection \<open>The random generator\<close>

text \<open>
  numpy's generator is not part of this repository. Its two operations the wrapper uses are
  parameters of the model: seeding (\<^verbatim>\<open>RandomState(seed)\<close>; \<open>None\<close> when the seed is
  refused) and
  one draw from the standard normal distribution, which advances the generator's state
  \<open>'g\<close>.
\<close>

record 'g nprandom =
  seed_state :: "int \<Rightarrow> 'g option"
  standard_normal :: "'g \<Rightarrow> real \<times> 'g"

fun draws :: "('g \<Rightarrow> real \<times> 'g) \<Rightarrow> nat \<Rightarrow> 'g \<Rightarrow> real list \<times> 'g" where
  "draws gz 0 g = ([], g)"
| "draws gz (Suc n) g =
     (case gz g of (z, g1) \<Rightarrow> (case draws gz n g1 of (zs, g2) \<Rightarrow> (z # zs, g2)))"

text \<open>
  \<^verbatim>\<open>random_state.normal(scale=stddev)\<close> with the default mean 0 and no size: numpy
  refuses a negative standard deviation (NaN is not refused), and otherwise returns one
  sample for each element of \<open>stddev\<close>, the element times a standard normal draw, in a new
  array.
\<close>

definition normal :: "'g nprandom \<Rightarrow> ndarray \<Rightarrow> 'g \<Rightarrow> error + (ndarray \<times> 'g)" where
  "normal np stddev g =
     (if \<exists>x \<in> set (elems stddev). f_less x (Num 0) then Inl NegativeStddev
      else (case draws (standard_normal np) (prod_list (shape stddev)) g of
              (zs, g') \<Rightarrow>
                Inr (\<lparr>dtype = FloatDType, shape = shape stddev,
                       elems = map2 (\<lambda>s z. f_mul s (Num z)) (elems stddev) zs,
                       writeable = True\<rparr>, g')))"

subsection \<open>Nested structures\<close>

text \<open>
  The nests that \<^verbatim>\<open>tree\<close> traverses: a leaf, or a list, a tuple or a dict of nests. A
  dict is represented by its keys and its values in the order of the sorted keys, which is
  the order in which \<^verbatim>\<open>tree\<close> visits it.
\<close>

datatype container = PyList | PyTuple | PyDict "string list"

datatype 'a nest = Leaf 'a | Node container "'a nest list"

fun flatten :: "'a nest \<Rightarrow> 'a list" where
  "flatten (Leaf x) = [x]"
| "flatten (Node c ts) = concat (map flatten ts)"

text \<open>
  \<^verbatim>\<open>tree.assert_same_structure\<close>: the same containers (types and dict keys) with the same
  number of children, down to the leaves. What a leaf holds is not looked at.
\<close>

fun same_structure :: "'a nest \<Rightarrow> 'b nest \<Rightarrow> bool" where
  "same_structure (Leaf x) (Leaf y) = True"
| "same_structure (Node c ts) (Node d us) = (c = d \<and> list_all2 same_structure ts us)"
| "same_structure (Leaf x) (Node d us) = False"
| "same_structure (Node c ts) (Leaf y) = False"

text \<open>
  \<^verbatim>\<open>tree.unflatten_as\<close>: the nest of the given structure whose leaves are the given
  list, in order; the second component is what is left of the list. It is only applied to
  as many leaves as the structure has (\<open>map_structure\<close> below has compared the structures
  by then), so the list is never short.
\<close>

fun unflatten :: "'b nest \<Rightarrow> 'c list \<Rightarrow> 'c nest \<times> 'c list"
  and unflatten_list :: "'b nest list \<Rightarrow> 'c list \<Rightarrow> 'c nest list \<times> 'c list" where
  "unflatten (Leaf y) xs = (Leaf (hd xs), tl xs)"
| "unflatten (Node c ts) xs = (case unflatten_list ts xs of (rs, xs') \<Rightarrow> (Node c rs, xs'))"
| "unflatten_list [] xs = ([], xs)"
| "unflatten_list (t # ts) xs =
     (case unflatten t xs of (r, xs') \<Rightarrow>
        (case unflatten_list ts xs' of (rs, xs'') \<Rightarrow> (r # rs, xs'')))"

definition unflatten_as :: "'b nest \<Rightarrow> 'c list \<Rightarrow> 'c nest" where
  "unflatten_as s xs = fst (unflatten s xs)"

text \<open>
  The list comprehension of \<^verbatim>\<open>map_structure\<close>: the function is applied to the pairs of
  leaves in order; it may change the store and it may raise, which ends the traversal with
  the store as it is then.
\<close>

fun map_leaves ::
  "('a \<Rightarrow> 'b \<Rightarrow> 'w \<Rightarrow> (error + 'c) \<times> 'w) \<Rightarrow> ('a \<times> 'b) list \<Rightarrow> 'w \<Rightarrow> (error + 'c list) \<times> 'w" where
  "map_leaves f [] w = (Inr [], w)"
| "map_leaves f ((a, s) # rest) w =
     (case f a s w of
        (Inl e, w') \<Rightarrow> (Inl e, w')
      | (Inr r, w') \<Rightarrow>
          (case map_leaves f rest w' of
             (Inl e, w'') \<Rightarrow> (Inl e, w'')
           | (Inr rs, w'') \<Rightarrow> (Inr (r # rs), w'')))"

text \<open>
  \<^verbatim>\<open>tree.map_structure(func, a, s)\<close>: the structures are compared first; then the function
  is applied to the flattened leaves, and the results are packed as the last structure.
\<close>

definition map_structure ::
  "('a \<Rightarrow> 'b \<Rightarrow> 'w \<Rightarrow> (error + 'c) \<times> 'w) \<Rightarrow> 'a nest \<Rightarrow> 'b nest \<Rightarrow> 'w \<Rightarrow> (error + 'c nest) \<times> 'w" where
  "map_structure f a s w =
     (if \<not> same_structure a s then (Inl StructureMismatch, w)
      else (case map_leaves f (zip (flatten a) (flatten s)) w of
              (Inl e, w') \<Rightarrow> (Inl e, w')
            | (Inr rs, w') \<Rightarrow> (Inr (unflatten_as s rs), w')))"

subsection \<open>Specs, the store, the environment\<close>

text \<open>
  A leaf of the action specification: \<^verbatim>\<open>specs.Array\<close>, or \<^verbatim>\<open>specs.BoundedArray\<close> (and
  its subclasses, such as \<^verbatim>\<open>DiscreteArray\<close>) with its minimum and maximum, which are
  read-only arrays.
\<close>

datatype spec =
    Array dtype "nat list"
  | BoundedArray dtype "nat list" ndarray ndarray

text \<open>\<^verbatim>\<open>isinstance(spec, specs.BoundedArray)\<close>.\<close>

fun is_bounded :: "spec \<Rightarrow> bool" where
  "is_bounded (BoundedArray k sh minimum maximum) = True"
| "is_bounded (Array k sh) = False"



text \<open>An array conforms to a leaf of the specification: it has its shape and its dtype.\<close>

fun spec_shape :: "spec \<Rightarrow> nat list" where
  "spec_shape (Array k sh) = sh"
| "spec_shape (BoundedArray k sh minimum maximum) = sh"



type_synonym ref = nat

text \<open>
  The store: the numpy arrays and the \<^verbatim>\<open>RandomState\<close> objects, by reference, and the
  next reference for a new \<^verbatim>\<open>RandomState\<close>.
\<close>

record 'g world =
  arrays :: "ref \<Rightarrow> ndarray"
  gens :: "ref \<Rightarrow> 'g"
  next_gen :: ref

text \<open>
  What the \<^verbatim>\<open>random_state\<close> argument, or an attribute of the environment, can hold:
  \<^verbatim>\<open>None\<close>, an \<^verbatim>\<open>int\<close>, a \<^verbatim>\<open>RandomState\<close> object, an object of another class.
\<close>

datatype pyval = PyNone | PyInt int | PyRandomState ref | PyObject string

text \<open>
  The environment, as far as the wrapper looks at it. An attribute that may be missing is
  an option: \<^verbatim>\<open>task\<close> and \<^verbatim>\<open>random_state\<close> of the environment, \<^verbatim>\<open>random\<close> of the
  task. The environment's \<^verbatim>\<open>step\<close> is a function of the action and the store.
\<close>

record task =
  task_random :: "pyval option"

record ('g, 'r) environment =
  env_action_spec :: "spec nest"
  env_task :: "task option"
  env_random_state :: "pyval option"
  env_step :: "ref nest \<Rightarrow> 'g world \<Rightarrow> (error + 'r) \<times> 'g world"

subsection \<open>The wrapper\<close>

text \<open>
  The attributes of the wrapper object. The scale is a Python float; it is taken to be a
  number (neither an infinity nor NaN), as a real.
\<close>

record ('g, 'r) ActionNoiseWrapper =
  self_environment :: "('g, 'r) environment"
  self_action_spec :: "spec nest"
  self_scale :: real
  self_random_state :: pyval

text \<open>\<^verbatim>\<open>np.random.RandomState(...)\<close>: a new object in the store, with the given state.\<close>

definition new_RandomState :: "'g \<Rightarrow> 'g world \<Rightarrow> pyval \<times> 'g world" where
  "new_RandomState g w =
     (PyRandomState (next_gen w),
      w\<lparr>gens := (gens w)(next_gen w := g), next_gen := Suc (next_gen w)\<rparr>)"

text \<open>
  Lines 35 to 53 of the constructor: the value bound to \<^verbatim>\<open>self._random_state\<close>.
  \<open>entropy\<close> is the state that an unseeded \<^verbatim>\<open>RandomState()\<close> would get from the
  operating system at this call.
\<close>

definition resolve_random_state ::
  "'g nprandom \<Rightarrow> 'g \<Rightarrow> ('g, 'r) environment \<Rightarrow> pyval \<Rightarrow> 'g world \<Rightarrow> (error + pyval) \<times> 'g world" where
  "resolve_random_state np entropy environment random_state w =
     (case random_state of
        PyNone \<Rightarrow>
          (case env_task environment of
             None \<Rightarrow> (case new_RandomState entropy w of (r, w') \<Rightarrow> (Inr r, w'))
           | Some t \<Rightarrow>
               (case task_random t of
                  Some v \<Rightarrow> (Inr v, w)
                | None \<Rightarrow>
                    (case env_random_state environment of
                       Some v \<Rightarrow> (Inr v, w)
                     | None \<Rightarrow> (case new_RandomState entropy w of (r, w') \<Rightarrow> (Inr r, w')))))
      | PyInt n \<Rightarrow>
          (case seed_state np n of
             None \<Rightarrow> (Inl SeedError, w)
           | Some g \<Rightarrow> (case new_RandomState g w of (r, w') \<Rightarrow> (Inr r, w')))
      | v \<Rightarrow> (Inr v, w))"

fun is_RandomState :: "pyval \<Rightarrow> bool" where
  "is_RandomState (PyRandomState r) = True"
| "is_RandomState v = False"

text \<open>
  \<^verbatim>\<open>ActionNoiseWrapper.__init__\<close>: the scale check, the capture of the action
  specification, the random state and the assertion, in this order. The constructor of the
  base class, which keeps the environment, and the environment's \<^verbatim>\<open>action_spec()\<close> are
  taken to return.
\<close>

definition init ::
  "'g nprandom \<Rightarrow> 'g \<Rightarrow> ('g, 'r) environment \<Rightarrow> real \<Rightarrow> pyval \<Rightarrow> 'g world
     \<Rightarrow> (error + ('g, 'r) ActionNoiseWrapper) \<times> 'g world" where
  "init np entropy environment scale random_state w =
     (if scale < 0 then (Inl InvalidScale, w)
      else (case resolve_random_state np entropy environment random_state w of
              (Inl e, w') \<Rightarrow> (Inl e, w')
            | (Inr rs, w') \<Rightarrow>
                if \<not> is_RandomState rs then (Inl AssertionError, w')
                else (Inr \<lparr>self_environment = environment,
                           self_action_spec = env_action_spec environment,
                           self_scale = scale,
                           self_random_state = rs\<rparr>, w')))"

text \<open>
  \<^verbatim>\<open>_corrupt_action\<close>, the inner function of \<^verbatim>\<open>_corrupt_nested_action\<close>; \<open>scale\<close> and
  \<open>random_state\<close> are the variables it closes over. The action is a reference: the array
  it names is changed in the store, and the same reference is returned. The method
  \<^verbatim>\<open>normal\<close> is looked up on \<open>random_state\<close> when a bounded leaf is reached, after the
  standard deviation has been computed; on a value that is not a \<^verbatim>\<open>RandomState\<close> this is
  an \<^verbatim>\<open>AttributeError\<close>.
\<close>

definition corrupt_action ::
  "'g nprandom \<Rightarrow> real \<Rightarrow> pyval \<Rightarrow> ref \<Rightarrow> spec \<Rightarrow> 'g world \<Rightarrow> (error + ref) \<times> 'g world" where
  "corrupt_action np scale random_state action sp w =
     (case sp of
        Array k sh \<Rightarrow> (Inr action, w)
      | BoundedArray k sh minimum maximum \<Rightarrow>
          (case subtract maximum minimum of
             Inl e \<Rightarrow> (Inl e, w)
           | Inr d \<Rightarrow>
               (case random_state of
                  PyRandomState rs \<Rightarrow>
                    (case normal np (scalar_mul scale d) (gens w rs) of
                       Inl e \<Rightarrow> (Inl e, w)
                     | Inr (noise, g') \<Rightarrow>
                         (let w1 = w\<lparr>gens := (gens w)(rs := g')\<rparr> in
                          case iadd (arrays w1 action) noise of
                            Inl e \<Rightarrow> (Inl e, w1)
                          | Inr a1 \<Rightarrow>
                              (let w2 = w1\<lparr>arrays := (arrays w1)(action := a1)\<rparr> in
                               case clip_out (arrays w2 action) minimum maximum of
                                 Inl e \<Rightarrow> (Inl e, w2)
                               | Inr a2 \<Rightarrow>
                                   (Inr action, w2\<lparr>arrays := (arrays w2)(action := a2)\<rparr>))))
                | v \<Rightarrow> (Inl AttributeError, w))))"

text \<open>
  What the corruption of a bounded leaf writes: \<open>a2\<close> is the clipped sum of the array \<open>a\<close>
  and the noise drawn for the bounds in the generator state \<open>g\<close>.
\<close>

definition corrupted ::
  "'g nprandom \<Rightarrow> real \<Rightarrow> ndarray \<Rightarrow> ndarray \<Rightarrow> ndarray \<Rightarrow> 'g \<Rightarrow> ndarray \<Rightarrow> bool" where
  "corrupted np scale lo hi a g a2 \<longleftrightarrow>
     (\<exists>d noise g' a1.
        subtract hi lo = Inr d \<and> normal np (scalar_mul scale d) g = Inr (noise, g') \<and>
        iadd a noise = Inr a1 \<and> clip_out a1 lo hi = Inr a2)"

text \<open>\<^verbatim>\<open>_corrupt_nested_action\<close>.\<close>

definition corrupt_nested_action ::
  "'g nprandom \<Rightarrow> ref nest \<Rightarrow> spec nest \<Rightarrow> real \<Rightarrow> pyval \<Rightarrow> 'g world
     \<Rightarrow> (error + ref nest) \<times> 'g world" where
  "corrupt_nested_action np nested_action nested_spec scale random_state w =
     map_structure (corrupt_action np scale random_state) nested_action nested_spec w"

text \<open>
  The first statement of \<^verbatim>\<open>step\<close>: the action that is handed to the wrapped
  environment, and the store at that moment.
\<close>

definition step_action ::
  "'g nprandom \<Rightarrow> ('g, 'r) ActionNoiseWrapper \<Rightarrow> ref nest \<Rightarrow> 'g world
     \<Rightarrow> (error + ref nest) \<times> 'g world" where
  "step_action np self action w =
     (if self_scale self > 0 then
        corrupt_nested_action np action (self_action_spec self) (self_scale self)
          (self_random_state self) w
      else (Inr action, w))"

text \<open>\<^verbatim>\<open>ActionNoiseWrapper.step\<close>.\<close>

definition step ::
  "'g nprandom \<Rightarrow> ('g, 'r) ActionNoiseWrapper \<Rightarrow> ref nest \<Rightarrow> 'g world
     \<Rightarrow> (error + 'r) \<times> 'g world" where
  "step np self action w =
     (case step_action np self action w of
        (Inl e, w') \<Rightarrow> (Inl e, w')
      | (Inr action', w') \<Rightarrow> env_step (self_environment self) action' w')"


subsection \<open>A run of the wrapper\<close>

text \<open>The arrays that an action holds in a store, in the nesting of the action.\<close>

definition read_action :: "'g world \<Rightarrow> ref nest \<Rightarrow> ndarray nest" where
  "read_action w a = map_nest (arrays w) a"

text \<open>
  The caller's loop over a list of actions, for the corruption alone: each action goes
  through the first statement of \<^verbatim>\<open>step\<close>, and what would be handed to the wrapped
  environment is recorded, as values. An error ends the run.
\<close>

fun feed ::
  "'g nprandom \<Rightarrow> ('g, 'r) ActionNoiseWrapper \<Rightarrow> ref nest list \<Rightarrow> 'g world
     \<Rightarrow> (error + ndarray nest list) \<times> 'g world" where
  "feed np self [] w = (Inr [], w)"
| "feed np self (a # as) w =
     (case step_action np self a w of
        (Inl e, w') \<Rightarrow> (Inl e, w')
      | (Inr a', w') \<Rightarrow>
          (case feed np self as w' of
             (Inl e, w'') \<Rightarrow> (Inl e, w'')
           | (Inr outs, w'') \<Rightarrow> (Inr (read_action w' a' # outs), w'')))"

subsection \<open>Concrete inputs\<close>

text \<open>
  A small generator for the examples: the state is a counter, a seed is accepted between 0
  and \<open>2\<^sup>3\<^sup>2 - 1\<close> as numpy does, and the draw in state \<open>g\<close> is \<open>g mod 3 - 1\<close>.
\<close>

definition example_np :: "nat nprandom" where
  "example_np =
     \<lparr>seed_state = (\<lambda>n. if 0 \<le> n \<and> n < 2 ^ 32 then Some (nat n) else None),
      standard_normal = (\<lambda>g. (real (g mod 3) - 1, Suc g))\<rparr>"

definition vec :: "real list \<Rightarrow> ndarray" where
  "vec xs = \<lparr>dtype = FloatDType, shape = [length xs], elems = map Num xs, writeable = True\<rparr>"


definition example_world :: "nat world" where
  "example_world = \<lparr>arrays = (\<lambda>r. vec [1 / 2]), gens = (\<lambda>r. 2), next_gen = 0\<rparr>"

definition unit_spec :: spec where
  "unit_spec = BoundedArray FloatDType [1] (vec [0]) (vec [1])"

definition example_env :: "(nat, ref nest) environment" where
  "example_env =
     \<lparr>env_action_spec = Leaf unit_spec, env_task = None, env_random_state = None,
      env_step = (\<lambda>a w. (Inr a, w))\<rparr>"

text \<open>A second store, with other references in use, and two runs of two actions each.\<close>

definition other_world :: "nat world" where
  "other_world = \<lparr>arrays = (\<lambda>r. vec [1 / 2]), gens = (\<lambda>r. 0), next_gen = 5\<rparr>"

definition run_a :: "ref nest list" where
  "run_a = [Leaf 0, Leaf 1]"

definition run_b :: "ref nest list" where
  "run_b = [Leaf 3, Leaf 4]"

definition pair_spec :: "spec nest" where
  "pair_spec =
     Node PyList [Leaf unit_spec, Leaf (BoundedArray FloatDType [2] (vec [0, 0]) (vec [1, 1]))]"



definition pair_action :: "ref nest" where
  "pair_action = Node PyList [Leaf 0, Leaf 1]"

definition leaf_action :: "ref nest" where
  "leaf_action = Leaf 0"

definition short_action :: "ref nest" where
  "short_action = Node PyList [Leaf 0]"

definition example_wrapper :: "spec nest \<Rightarrow> real \<Rightarrow> (nat, ref nest) ActionNoiseWrapper" where
  "example_wrapper sp scale =
     \<lparr>self_environment = example_env\<lparr>env_action_spec := sp\<rparr>, self_action_spec = sp,
      self_scale = scale, self_random_state = PyRandomState 7\<rparr>"





text \<open>A store whose array 1 has two elements, the second above the maximum 1.\<close>

definition pair_world :: "nat world" where
  "pair_world = example_world\<lparr>arrays := (arrays example_world)(1 := vec [1 / 2, 2])\<rparr>"


section \<open>Properties\<close>

subsection \<open>Construction\<close>

text \<open>
  C6. Construction with a negative scale fails with the invalid-argument error, before
  anything else is done (the store is as it was and no wrapper is returned); with a scale
  that is not negative this error is not raised.
\<close>

theorem init_scale_check:
  "(scale < 0 \<longrightarrow> init np entropy environment scale random_state w = (Inl InvalidScale, w)) \<and>
   (0 \<le> scale \<longrightarrow> fst (init np entropy environment scale random_state w) \<noteq> Inl InvalidScale)"
  by (auto simp: init_def resolve_random_state_def new_RandomState_def
      split: pyval.splits option.splits prod.splits sum.splits)

theorem init_scale_check_witness:
  "(- 1 :: real) < 0 \<and>
   init example_np 7 example_env (- 1) PyNone example_world = (Inl InvalidScale, example_world) \<and>
   (0 :: real) \<le> 1 / 100 \<and>
   fst (init example_np 7 example_env (1 / 100) (PyInt 3) example_world) \<noteq> Inl InvalidScale"
  using init_scale_check [of "- 1" example_np 7 example_env PyNone example_world]
    init_scale_check [of "1 / 100" example_np 7 example_env "PyInt 3" example_world]
  by simp

text \<open>
  C7. The value bound to the wrapper's random state, by the cases of the argument, in the
  order of the source: an integer that numpy accepts as a seed gives a new
  \<^verbatim>\<open>RandomState\<close> object with the seeded state (a reference not in use before, every
  other generator untouched); a \<^verbatim>\<open>RandomState\<close> object is taken as it is, the same
  reference, and the store is not changed; with no argument, an environment without
  \<^verbatim>\<open>task\<close> gives a new unseeded object, otherwise the task's \<^verbatim>\<open>random\<close> is taken if the
  attribute exists, else the environment's \<^verbatim>\<open>random_state\<close> if that exists, else a new
  unseeded object. The constructor binds that value once, and nothing in the wrapper
  rebinds it.
\<close>

theorem resolve_random_state_order:
  "(seed_state np n = Some g \<longrightarrow>
      resolve_random_state np entropy environment (PyInt n) w =
        (Inr (PyRandomState (next_gen w)),
         w\<lparr>gens := (gens w)(next_gen w := g), next_gen := Suc (next_gen w)\<rparr>)) \<and>
   resolve_random_state np entropy environment (PyRandomState r) w = (Inr (PyRandomState r), w) \<and>
   (env_task environment = None \<longrightarrow>
      resolve_random_state np entropy environment PyNone w =
        (Inr (PyRandomState (next_gen w)),
         w\<lparr>gens := (gens w)(next_gen w := entropy), next_gen := Suc (next_gen w)\<rparr>)) \<and>
   (env_task environment = Some t \<and> task_random t = Some v \<longrightarrow>
      resolve_random_state np entropy environment PyNone w = (Inr v, w)) \<and>
   (env_task environment = Some t \<and> task_random t = None \<and>
    env_random_state environment = Some v \<longrightarrow>
      resolve_random_state np entropy environment PyNone w = (Inr v, w)) \<and>
   (env_task environment = Some t \<and> task_random t = None \<and>
    env_random_state environment = None \<longrightarrow>
      resolve_random_state np entropy environment PyNone w =
        (Inr (PyRandomState (next_gen w)),
         w\<lparr>gens := (gens w)(next_gen w := entropy), next_gen := Suc (next_gen w)\<rparr>)) \<and>
   (0 \<le> scale \<and> resolve_random_state np entropy environment random_state w = (Inr x, w') \<and>
    is_RandomState x \<longrightarrow>
      init np entropy environment scale random_state w =
        (Inr \<lparr>self_environment = environment, self_action_spec = env_action_spec environment,
              self_scale = scale, self_random_state = x\<rparr>, w'))"
  by (simp add: resolve_random_state_def new_RandomState_def init_def)

theorem resolve_random_state_order_witness:
  "seed_state example_np 3 = Some 3 \<and>
   resolve_random_state example_np 7 example_env (PyInt 3) example_world =
     (Inr (PyRandomState 0), example_world\<lparr>gens := (gens example_world)(0 := 3), next_gen := 1\<rparr>) \<and>
   env_task example_env = None \<and>
   resolve_random_state example_np 7 example_env PyNone example_world =
     (Inr (PyRandomState 0), example_world\<lparr>gens := (gens example_world)(0 := 7), next_gen := 1\<rparr>) \<and>
   env_task (example_env\<lparr>env_task := Some \<lparr>task_random = Some (PyRandomState 5)\<rparr>\<rparr>) =
     Some \<lparr>task_random = Some (PyRandomState 5)\<rparr> \<and>
   resolve_random_state example_np 7
       (example_env\<lparr>env_task := Some \<lparr>task_random = Some (PyRandomState 5)\<rparr>\<rparr>) PyNone
       example_world = (Inr (PyRandomState 5), example_world) \<and>
   env_random_state (example_env\<lparr>env_task := Some \<lparr>task_random = None\<rparr>,
       env_random_state := Some (PyRandomState 6)\<rparr>) = Some (PyRandomState 6) \<and>
   resolve_random_state example_np 7
       (example_env\<lparr>env_task := Some \<lparr>task_random = None\<rparr>,
          env_random_state := Some (PyRandomState 6)\<rparr>) PyNone
       example_world = (Inr (PyRandomState 6), example_world) \<and>
   env_random_state (example_env\<lparr>env_task := Some \<lparr>task_random = None\<rparr>\<rparr>) = None \<and>
   resolve_random_state example_np 7
       (example_env\<lparr>env_task := Some \<lparr>task_random = None\<rparr>\<rparr>) PyNone example_world =
     (Inr (PyRandomState 0), example_world\<lparr>gens := (gens example_world)(0 := 7), next_gen := 1\<rparr>) \<and>
   init example_np 7 example_env (1 / 100) (PyRandomState 4) example_world =
     (Inr \<lparr>self_environment = example_env, self_action_spec = env_action_spec example_env,
           self_scale = 1 / 100, self_random_state = PyRandomState 4\<rparr>, example_world)"
  using
    resolve_random_state_order [of example_np 3 3 7 example_env example_world 4
      "\<lparr>task_random = Some (PyRandomState 5)\<rparr>" "PyRandomState 5" "1 / 100" "PyRandomState 4"
      "PyRandomState 4" example_world]
    resolve_random_state_order [of example_np 3 3 7
      "example_env\<lparr>env_task := Some \<lparr>task_random = Some (PyRandomState 5)\<rparr>\<rparr>" example_world 4
      "\<lparr>task_random = Some (PyRandomState 5)\<rparr>" "PyRandomState 5" "1 / 100" "PyRandomState 4"
      "PyRandomState 4" example_world]
    resolve_random_state_order [of example_np 3 3 7
      "example_env\<lparr>env_task := Some \<lparr>task_random = None\<rparr>,
         env_random_state := Some (PyRandomState 6)\<rparr>" example_world 4
      "\<lparr>task_random = None\<rparr>" "PyRandomState 6" "1 / 100" "PyRandomState 4"
      "PyRandomState 4" example_world]
    resolve_random_state_order [of example_np 3 3 7
      "example_env\<lparr>env_task := Some \<lparr>task_random = None\<rparr>\<rparr>" example_world 4
      "\<lparr>task_random = None\<rparr>" "PyRandomState 6" "1 / 100" "PyRandomState 4"
      "PyRandomState 4" example_world]
  by (simp add: example_np_def example_env_def example_world_def)

text \<open>
  C10. An argument that is neither an \<^verbatim>\<open>int\<close> nor a \<^verbatim>\<open>RandomState\<close> object (and not
  \<^verbatim>\<open>None\<close>) is bound as it is, and the assertion that follows fails: no wrapper is
  constructed, and once the scale check has passed the error is the assertion's, with the
  store unchanged. Every wrapper that is constructed holds a \<^verbatim>\<open>RandomState\<close>.
\<close>

theorem init_random_state_assertion:
  "(\<forall>self w'. init np entropy environment scale (PyObject c) w \<noteq> (Inr self, w')) \<and>
   (0 \<le> scale \<longrightarrow> init np entropy environment scale (PyObject c) w = (Inl AssertionError, w)) \<and>
   (init np entropy environment scale random_state w = (Inr self, w') \<longrightarrow>
      is_RandomState (self_random_state self))"
  by (auto simp: init_def resolve_random_state_def split: prod.splits sum.splits if_splits)

theorem init_random_state_assertion_witness:
  "(0 :: real) \<le> 1 / 100 \<and>
   init example_np 7 example_env (1 / 100) (PyObject ''str'') example_world =
     (Inl AssertionError, example_world) \<and>
   init example_np 7 example_env (1 / 100) (PyInt 3) example_world =
     (Inr \<lparr>self_environment = example_env, self_action_spec = env_action_spec example_env,
           self_scale = 1 / 100, self_random_state = PyRandomState 0\<rparr>,
      example_world\<lparr>gens := (gens example_world)(0 := 3), next_gen := 1\<rparr>) \<and>
   is_RandomState (PyRandomState 0)"
  using init_random_state_assertion [of example_np 7 example_env "1 / 100" "''str''" example_world
      "PyInt 3"
      "\<lparr>self_environment = example_env, self_action_spec = env_action_spec example_env,
        self_scale = 1 / 100, self_random_state = PyRandomState 0\<rparr>"
      "example_world\<lparr>gens := (gens example_world)(0 := 3), next_gen := 1\<rparr>"]
  by (simp add: init_def resolve_random_state_def new_RandomState_def example_np_def
      example_world_def)

subsection \<open>The traversal: auxiliary facts\<close>

text \<open>Packing the flattened leaves of a nest as a nest of the same structure gives it back.\<close>

lemma unflatten_list_flatten:
  assumes "list_all2 same_structure (as :: 'a nest list) (ss :: 'b nest list)"
    and "\<And>t (a :: 'a nest) rest. t \<in> set ss \<Longrightarrow> same_structure a t \<Longrightarrow> unflatten t (flatten a @ rest) = (a, rest)"
  shows "unflatten_list ss (concat (map flatten as) @ rest) = (as, rest)"
  using assms
proof (induction as ss arbitrary: rest rule: list_all2_induct)
  case Nil
  then show ?case by simp
next
  case (Cons x xs y ys)
  have hd: "unflatten y (flatten x @ concat (map flatten xs) @ rest) = (x, concat (map flatten xs) @ rest)"
    using Cons.hyps(1) Cons.prems by simp
  have tl: "unflatten_list ys (concat (map flatten xs) @ rest) = (xs, rest)"
    using Cons.IH Cons.prems by simp
  show ?case by (simp add: hd tl)
qed

lemma unflatten_flatten:
  "same_structure a s \<Longrightarrow> unflatten s (flatten a @ rest) = (a, rest)"
proof (induction s arbitrary: a rest)
  case (Leaf y)
  then show ?case by (cases a) auto
next
  case (Node c ts)
  then obtain us where a: "a = Node c us" and l: "list_all2 same_structure us ts"
    by (cases a) auto
  have "unflatten_list ts (concat (map flatten us) @ rest) = (us, rest)"
    using l Node.IH by (rule unflatten_list_flatten)
  then show ?case by (simp add: a)
qed

lemma unflatten_as_flatten: "same_structure a s \<Longrightarrow> unflatten_as s (flatten a) = a"
  using unflatten_flatten [of a s "[]"] by (simp add: unflatten_as_def)

lemma same_structure_lengths:
  assumes "list_all2 same_structure (as :: 'a nest list) (ss :: 'b nest list)"
    and "\<And>t (a :: 'a nest). t \<in> set ss \<Longrightarrow> same_structure a t \<Longrightarrow> length (flatten a) = length (flatten t)"
  shows "length (concat (map flatten as)) = length (concat (map flatten ss))"
  using assms
proof (induction as ss rule: list_all2_induct)
  case Nil
  then show ?case by simp
next
  case (Cons x xs y ys)
  have "length (flatten x) = length (flatten y)"
    using Cons.hyps(1) Cons.prems by simp
  moreover have "length (concat (map flatten xs)) = length (concat (map flatten ys))"
    using Cons.IH Cons.prems by simp
  ultimately show ?case by simp
qed

lemma same_structure_length:
  "same_structure a s \<Longrightarrow> length (flatten a) = length (flatten s)"
proof (induction s arbitrary: a)
  case (Leaf y)
  then show ?case by (cases a) auto
next
  case (Node c ts)
  then obtain us where a: "a = Node c us" and l: "list_all2 same_structure us ts"
    by (cases a) auto
  show ?case
    using same_structure_lengths [OF l Node.IH] by (simp add: a)
qed

text \<open>
  What one call of \<open>corrupt_action\<close> can touch: it returns the reference it was given, and
  of the store only the array behind that reference and the state of the generator.
\<close>

lemma corrupt_action_ref:
  "corrupt_action np scale rs action sp w = (Inr r, w') \<Longrightarrow> r = action"
  by (auto simp: corrupt_action_def Let_def split: spec.splits sum.splits prod.splits pyval.splits)

lemma corrupt_action_arrays_other:
  "corrupt_action np scale rs action sp w = (res, w') \<Longrightarrow> r \<noteq> action \<Longrightarrow>
   arrays w' r = arrays w r"
  by (auto simp: corrupt_action_def Let_def split: spec.splits sum.splits prod.splits pyval.splits)

lemma corrupt_action_gens_other:
  "corrupt_action np scale rs action sp w = (res, w') \<Longrightarrow> rs \<noteq> PyRandomState r \<Longrightarrow>
   gens w' r = gens w r"
  by (auto simp: corrupt_action_def Let_def split: spec.splits sum.splits prod.splits pyval.splits)

lemma corrupt_action_next_gen:
  "corrupt_action np scale rs action sp w = (res, w') \<Longrightarrow> next_gen w' = next_gen w"
  by (auto simp: corrupt_action_def Let_def split: spec.splits sum.splits prod.splits pyval.splits)

lemma corrupt_action_arrays_unbounded:
  "corrupt_action np scale rs action sp w = (res, w') \<Longrightarrow> \<not> is_bounded sp \<Longrightarrow> arrays w' = arrays w"
  by (cases sp) (auto simp: corrupt_action_def)

lemma map_leaves_refs:
  "map_leaves (corrupt_action np scale rs) ps w = (Inr xs, w') \<Longrightarrow> xs = map fst ps"
proof (induction ps arbitrary: w xs w')
  case Nil
  then show ?case by simp
next
  case (Cons p ps)
  obtain a sp where p: "p = (a, sp)" by (cases p)
  from Cons.prems obtain r w1 ys where
    1: "corrupt_action np scale rs a sp w = (Inr r, w1)" and
    2: "map_leaves (corrupt_action np scale rs) ps w1 = (Inr ys, w')" and
    3: "xs = r # ys"
    by (auto simp: p split: prod.splits sum.splits)
  from 1 have "r = a" by (rule corrupt_action_ref)
  moreover from 2 have "ys = map fst ps" by (rule Cons.IH)
  ultimately show ?case by (simp add: 3 p)
qed

lemma map_leaves_arrays_other:
  "map_leaves (corrupt_action np scale rs) ps w = (res, w') \<Longrightarrow>
   \<forall>sp. (r, sp) \<in> set ps \<longrightarrow> \<not> is_bounded sp \<Longrightarrow> arrays w' r = arrays w r"
proof (induction ps arbitrary: w res w')
  case Nil
  then show ?case by simp
next
  case (Cons p ps)
  obtain a sp where p: "p = (a, sp)" by (cases p)
  obtain res1 w1 where 1: "corrupt_action np scale rs a sp w = (res1, w1)"
    by (cases "corrupt_action np scale rs a sp w")
  have a: "arrays w1 r = arrays w r"
  proof (cases "r = a")
    case True
    then have "\<not> is_bounded sp" using Cons.prems(2) by (simp add: p)
    with 1 show ?thesis by (simp add: corrupt_action_arrays_unbounded)
  next
    case False
    with 1 show ?thesis by (rule corrupt_action_arrays_other)
  qed
  show ?case
  proof (cases res1)
    case (Inl e)
    then show ?thesis using Cons.prems(1) 1 a by (simp add: p)
  next
    case (Inr x)
    obtain res2 w2 where 2: "map_leaves (corrupt_action np scale rs) ps w1 = (res2, w2)"
      by (cases "map_leaves (corrupt_action np scale rs) ps w1")
    have "w' = w2" using Cons.prems(1) 1 2 Inr by (auto simp: p split: sum.splits)
    moreover have "arrays w2 r = arrays w1 r"
      using 2 Cons.prems(2) by (intro Cons.IH) auto
    ultimately show ?thesis using a by simp
  qed
qed

lemma corrupt_nested_action_ref:
  assumes "corrupt_nested_action np action sp scale rs w = (Inr a', w')"
  shows "a' = action"
proof -
  have s: "same_structure action sp"
    using assms by (auto simp: corrupt_nested_action_def map_structure_def split: if_splits)
  then obtain xs where
    m: "map_leaves (corrupt_action np scale rs) (zip (flatten action) (flatten sp)) w = (Inr xs, w')"
    and a: "a' = unflatten_as sp xs"
    using assms
    by (auto simp: corrupt_nested_action_def map_structure_def split: prod.splits sum.splits)
  have "xs = map fst (zip (flatten action) (flatten sp))"
    using m by (rule map_leaves_refs)
  also have "\<dots> = flatten action"
    using same_structure_length [OF s] by simp
  finally show ?thesis
    using a s by (simp add: unflatten_as_flatten)
qed

lemma corrupt_nested_action_arrays_other:
  assumes "corrupt_nested_action np action sp scale rs w = (res, w')"
    and "\<forall>s. (r, s) \<in> set (zip (flatten action) (flatten sp)) \<longrightarrow> \<not> is_bounded s"
  shows "arrays w' r = arrays w r"
proof (cases "same_structure action sp")
  case False
  then show ?thesis
    using assms(1) by (simp add: corrupt_nested_action_def map_structure_def)
next
  case True
  obtain res1 w1 where
    m: "map_leaves (corrupt_action np scale rs) (zip (flatten action) (flatten sp)) w = (res1, w1)"
    by (cases "map_leaves (corrupt_action np scale rs) (zip (flatten action) (flatten sp)) w")
  have "w' = w1"
    using assms(1) True m
    by (auto simp: corrupt_nested_action_def map_structure_def split: sum.splits)
  then show ?thesis
    using map_leaves_arrays_other [OF m assms(2)] by simp
qed

subsection \<open>The step operation\<close>

text \<open>
  C2. With scale 0 the step hands the wrapped environment the action it was given, the same
  references, in the store as it was: no array is written, no draw is made and the state of
  every generator is as before.
\<close>

theorem step_zero_scale_passthrough:
  "self_scale self = 0 \<Longrightarrow>
   step_action np self action w = (Inr action, w) \<and>
   step np self action w = env_step (self_environment self) action w"
  by (simp add: step_action_def step_def)

theorem step_zero_scale_passthrough_witness:
  "self_scale (example_wrapper pair_spec 0) = 0 \<and>
   step_action example_np (example_wrapper pair_spec 0) pair_action example_world =
     (Inr pair_action, example_world) \<and>
   step example_np (example_wrapper pair_spec 0) pair_action example_world =
     (Inr pair_action, example_world)"
  using step_zero_scale_passthrough [of "example_wrapper pair_spec 0" example_np
      pair_action example_world]
  by (simp add: example_wrapper_def example_env_def)

text \<open>
  C3, as stated, fails for a shape mismatch at a leaf. The traversal compares the nesting
  only. Here the second leaf holds an array of shape \<open>[1]\<close> against bounds of shape \<open>[2]\<close>:
  the error is numpy's broadcast error, raised at that leaf, and by then the first leaf has
  been corrupted in place, from \<open>[1/2]\<close> to \<open>[3/5]\<close>. And an array of shape \<open>[2]\<close> against a
  specification of shape \<open>[1]\<close> raises nothing: the bounds and the one draw are broadcast
  over it.
\<close>

theorem step_shape_mismatch_counterexample:
  "0 < self_scale (example_wrapper pair_spec (1 / 10)) \<and>
   same_structure pair_action (self_action_spec (example_wrapper pair_spec (1 / 10))) \<and>
   shape (arrays example_world 1) = [1] \<and>
   flatten (self_action_spec (example_wrapper pair_spec (1 / 10))) ! 1 =
     BoundedArray FloatDType [2] (vec [0, 0]) (vec [1, 1]) \<and>
   fst (step example_np (example_wrapper pair_spec (1 / 10)) pair_action
          example_world) = Inl BroadcastError \<and>
   arrays example_world 0 = vec [1 / 2] \<and>
   arrays (snd (step example_np (example_wrapper pair_spec (1 / 10)) pair_action
                  example_world)) 0 = vec [3 / 5] \<and>
   shape (arrays (example_world\<lparr>arrays := (arrays example_world)(0 := vec [1 / 2, 2])\<rparr>) 0) = [2] \<and>
   spec_shape unit_spec = [1] \<and>
   fst (step example_np (example_wrapper (Leaf unit_spec) (1 / 10)) leaf_action
          (example_world\<lparr>arrays := (arrays example_world)(0 := vec [1 / 2, 2])\<rparr>)) = Inr leaf_action \<and>
   arrays (snd (step example_np (example_wrapper (Leaf unit_spec) (1 / 10)) leaf_action
                  (example_world\<lparr>arrays := (arrays example_world)(0 := vec [1 / 2, 2])\<rparr>))) 0 =
     vec [3 / 5, 1]"
  by code_simp

text \<open>
  C3, amended. When the nesting of the action differs from that of the captured
  specification and scale is positive, the step fails with the structure mismatch, the
  wrapped environment is not called, and the store is as it was: no leaf is written and no
  draw is made.
\<close>

theorem step_structure_mismatch:
  assumes "0 < self_scale self"
    and "self_random_state self = PyRandomState r"
    and "\<not> same_structure action (self_action_spec self)"
  shows "step np self action w = (Inl StructureMismatch, w)"
  using assms
  by (simp add: step_def step_action_def corrupt_nested_action_def map_structure_def)

theorem step_structure_mismatch_witness:
  "0 < self_scale (example_wrapper pair_spec (1 / 10)) \<and>
   self_random_state (example_wrapper pair_spec (1 / 10)) = PyRandomState 7 \<and>
   \<not> same_structure short_action (self_action_spec (example_wrapper pair_spec (1 / 10))) \<and>
   step example_np (example_wrapper pair_spec (1 / 10)) short_action example_world =
     (Inl StructureMismatch, example_world)"
proof -
  have 1: "0 < self_scale (example_wrapper pair_spec (1 / 10))"
    by (simp add: example_wrapper_def)
  have 2: "self_random_state (example_wrapper pair_spec (1 / 10)) = PyRandomState 7"
    by (simp add: example_wrapper_def)
  have 3: "\<not> same_structure short_action
             (self_action_spec (example_wrapper pair_spec (1 / 10)))"
    by (simp add: example_wrapper_def pair_spec_def short_action_def)
  show ?thesis
    using 1 2 3 step_structure_mismatch [OF 1 2 3, of example_np example_world] by simp
qed

subsection \<open>Elements, indices and broadcasting\<close>








lemma f_mul_zero: "f_mul (Num c) (Num 0) = Num 0" "f_mul (Num 0) (Num z) = Num 0"
  by simp_all



lemma length_indices: "length (indices sh) = prod_list sh"
proof (induction sh)
  case Nil
  then show ?case by simp
next
  case (Cons d ds)
  then show ?case by (simp add: length_concat comp_def sum_list_triv)
qed





lemma bshape_rev_same: "bshape_rev xs xs = Some xs"
  by (induction xs) auto

lemma broadcast_shapes_same: "broadcast_shapes s s = Some s"
  by (simp add: broadcast_shapes_def bshape_rev_same)












subsection \<open>Corruption of a leaf\<close>


lemma iadd_shape:
  "iadd a b = Inr a1 \<Longrightarrow>
   shape a1 = shape a \<and> dtype a1 = dtype a \<and> writeable a1 = writeable a \<and> well_formed a1"
  by (auto simp: iadd_def well_formed_def length_indices split: if_splits)

lemma clip_out_shape:
  "clip_out a lo hi = Inr a2 \<Longrightarrow>
   shape a2 = shape a \<and> dtype a2 = dtype a \<and> writeable a2 = writeable a \<and> well_formed a2"
  by (auto simp: clip_out_def well_formed_def length_indices split: if_splits)




lemma corrupt_action_bounded_success:
  assumes "corrupt_action np scale rs action (BoundedArray k sh lo hi) w = (Inr r, w')"
  shows "\<exists>g a2. rs = PyRandomState g \<and>
           corrupted np scale lo hi (arrays w action) (gens w g) a2 \<and>
           arrays w' = (arrays w)(action := a2)"
  using assms unfolding corrupt_action_def corrupted_def Let_def
  by (auto split: sum.splits prod.splits pyval.splits)

lemma corrupted_shape:
  "corrupted np scale lo hi a g a2 \<Longrightarrow>
   shape a2 = shape a \<and> dtype a2 = dtype a \<and> writeable a2 = writeable a"
  unfolding corrupted_def by (auto dest!: iadd_shape clip_out_shape)


lemma map_leaves_in_place:
  assumes "map_leaves (corrupt_action np scale rs) ps w = (Inr xs, w')"
    and "distinct (map fst ps)"
    and "(a, BoundedArray k sh lo hi) \<in> set ps"
  shows "\<exists>v. corrupted np scale lo hi (arrays w a) v (arrays w' a)"
  using assms
proof (induction ps arbitrary: w xs)
  case Nil
  then show ?case by simp
next
  case (Cons p ps)
  obtain a0 sp0 where p: "p = (a0, sp0)" by (cases p)
  from Cons.prems(1) obtain r w1 ys where
    1: "corrupt_action np scale rs a0 sp0 w = (Inr r, w1)" and
    2: "map_leaves (corrupt_action np scale rs) ps w1 = (Inr ys, w')"
    by (auto simp: p split: prod.splits sum.splits)
  have d: "a0 \<notin> fst ` set ps" "distinct (map fst ps)"
    using Cons.prems(2) by (auto simp: p)
  show ?case
  proof (cases "(a, BoundedArray k sh lo hi) = p")
    case True
    then have e: "a0 = a" "sp0 = BoundedArray k sh lo hi" by (simp_all add: p)
    from corrupt_action_bounded_success [OF 1 [unfolded e]] obtain g a2 where
      c: "corrupted np scale lo hi (arrays w a) (gens w g) a2" and
      s: "arrays w1 = (arrays w)(a := a2)"
      by blast
    have "arrays w' a = arrays w1 a"
      using 2 d(1) by (intro map_leaves_arrays_other) (auto simp: e image_iff)
    with c s show ?thesis by auto
  next
    case False
    then have m: "(a, BoundedArray k sh lo hi) \<in> set ps" using Cons.prems(3) by auto
    then have "a \<noteq> a0" using d(1) by (auto simp: image_iff)
    then have "arrays w1 a = arrays w a"
      using 1 by (intro corrupt_action_arrays_other) auto
    with Cons.IH [OF 2 d(2) m] show ?thesis by simp
  qed
qed

lemma step_action_success:
  assumes "0 < self_scale self"
    and "step_action np self action w = (Inr action', w')"
  shows "action' = action"
    and "step np self action w = env_step (self_environment self) action w'"
    and "\<exists>xs. map_leaves (corrupt_action np (self_scale self) (self_random_state self))
                 (zip (flatten action) (flatten (self_action_spec self))) w = (Inr xs, w')"
    and "map fst (zip (flatten action) (flatten (self_action_spec self))) = flatten action"
proof -
  let ?sp = "self_action_spec self"
  have c: "corrupt_nested_action np action ?sp (self_scale self) (self_random_state self) w
             = (Inr action', w')"
    using assms by (simp add: step_action_def)
  then show e: "action' = action" by (rule corrupt_nested_action_ref)
  show "step np self action w = env_step (self_environment self) action w'"
    using assms(2) e by (simp add: step_def)
  from c have s: "same_structure action ?sp"
    by (auto simp: corrupt_nested_action_def map_structure_def split: if_splits)
  with c show "\<exists>xs. map_leaves (corrupt_action np (self_scale self) (self_random_state self))
                 (zip (flatten action) (flatten ?sp)) w = (Inr xs, w')"
    by (auto simp: corrupt_nested_action_def map_structure_def split: prod.splits sum.splits)
  show "map fst (zip (flatten action) (flatten ?sp)) = flatten action"
    using same_structure_length [OF s] by simp
qed

lemma step_action_arrays_other:
  assumes "step_action np self a w = (res, w')"
    and "\<forall>s. (x, s) \<in> set (zip (flatten a) (flatten (self_action_spec self))) \<longrightarrow> \<not> is_bounded s"
  shows "arrays w' x = arrays w x"
proof (cases "0 < self_scale self")
  case False
  then show ?thesis using assms(1) by (simp add: step_action_def)
next
  case True
  then have "corrupt_nested_action np a (self_action_spec self) (self_scale self)
               (self_random_state self) w = (res, w')"
    using assms(1) by (simp add: step_action_def)
  then show ?thesis using assms(2) by (rule corrupt_nested_action_arrays_other)
qed

text \<open>
  C9. For a leaf whose specification is not bounded, \<open>corrupt_action\<close> returns the reference
  it was given and leaves the store as it is. For a bounded leaf the reference returned is
  again the one given, and the array behind it in the store is replaced by the clipped sum
  of its content and the noise: the caller's own array is written, and no other. Through
  the step with a positive scale: the wrapped environment is handed the action that was
  passed (the same references at every position) in the store the traversal leaves; an
  array that is not at a bounded leaf has its content unchanged; and when the leaves of the
  action are distinct arrays, the array at every bounded leaf has been replaced by the
  clipped sum of its content before the step and the noise drawn for its bounds.
\<close>

theorem corruption_in_place:
  "corrupt_action np scale rs action (Array k sh) w = (Inr action, w) \<and>
   (corrupt_action np scale (PyRandomState g) action (BoundedArray k sh lo hi) w = (Inr r, w1) \<longrightarrow>
      r = action \<and>
      corrupted np scale lo hi (arrays w action) (gens w g) (arrays w1 action) \<and>
      (\<forall>x. x \<noteq> action \<longrightarrow> arrays w1 x = arrays w x)) \<and>
   (0 < self_scale self \<and> step_action np self nested_action w = (Inr nested_action', w') \<longrightarrow>
      nested_action' = nested_action \<and>
      step np self nested_action w = env_step (self_environment self) nested_action w' \<and>
      (\<forall>x. (\<forall>s. (x, s) \<in> set (zip (flatten nested_action) (flatten (self_action_spec self)))
                 \<longrightarrow> \<not> is_bounded s)
           \<longrightarrow> arrays w' x = arrays w x) \<and>
      (distinct (flatten nested_action) \<longrightarrow>
         (\<forall>a k' sh' lo' hi'.
            (a, BoundedArray k' sh' lo' hi') \<in>
              set (zip (flatten nested_action) (flatten (self_action_spec self))) \<longrightarrow>
            (\<exists>v. corrupted np (self_scale self) lo' hi' (arrays w a) v (arrays w' a)))))"
proof (intro conjI impI allI)
  show "corrupt_action np scale rs action (Array k sh) w = (Inr action, w)"
    by (simp add: corrupt_action_def)
next
  assume c: "corrupt_action np scale (PyRandomState g) action (BoundedArray k sh lo hi) w = (Inr r, w1)"
  then show "r = action" by (rule corrupt_action_ref)
  from corrupt_action_bounded_success [OF c]
  show "corrupted np scale lo hi (arrays w action) (gens w g) (arrays w1 action)" by auto
  fix x assume "x \<noteq> action"
  with c show "arrays w1 x = arrays w x" by (rule corrupt_action_arrays_other)
next
  assume h: "0 < self_scale self \<and> step_action np self nested_action w = (Inr nested_action', w')"
  then have p: "0 < self_scale self" and
    s: "step_action np self nested_action w = (Inr nested_action', w')" by simp_all
  note t = step_action_success [OF p s]
  show "nested_action' = nested_action" by (rule t(1))
  show "step np self nested_action w = env_step (self_environment self) nested_action w'"
    by (rule t(2))
  {
    fix x
    assume "\<forall>s. (x, s) \<in> set (zip (flatten nested_action) (flatten (self_action_spec self)))
                 \<longrightarrow> \<not> is_bounded s"
    with s show "arrays w' x = arrays w x" by (rule step_action_arrays_other)
  }
  {
    fix a k' sh' lo' hi'
    assume d: "distinct (flatten nested_action)"
      and m: "(a, BoundedArray k' sh' lo' hi') \<in>
                set (zip (flatten nested_action) (flatten (self_action_spec self)))"
    from t(3) obtain xs where
      ml: "map_leaves (corrupt_action np (self_scale self) (self_random_state self))
             (zip (flatten nested_action) (flatten (self_action_spec self))) w = (Inr xs, w')"
      by blast
    have "distinct (map fst (zip (flatten nested_action) (flatten (self_action_spec self))))"
      using d by (simp only: t(4))
    from map_leaves_in_place [OF ml this m]
    show "\<exists>v. corrupted np (self_scale self) lo' hi' (arrays w a) v (arrays w' a)" .
  }
qed

theorem corruption_in_place_witness:
  "0 < self_scale (example_wrapper pair_spec (1 / 10)) \<and>
   fst (step_action example_np (example_wrapper pair_spec (1 / 10)) pair_action pair_world) =
     Inr pair_action \<and>
   distinct (flatten pair_action) \<and>
   arrays pair_world 0 = vec [1 / 2] \<and>
   arrays (snd (step_action example_np (example_wrapper pair_spec (1 / 10)) pair_action
                  pair_world)) 0 = vec [3 / 5] \<and>
   arrays pair_world 1 = vec [1 / 2, 2] \<and>
   arrays (snd (step_action example_np (example_wrapper pair_spec (1 / 10)) pair_action
                  pair_world)) 1 = vec [2 / 5, 1] \<and>
   (\<exists>v. corrupted example_np (1 / 10) (vec [0, 0]) (vec [1, 1]) (vec [1 / 2, 2]) v
          (vec [2 / 5, 1])) \<and>
   step example_np (example_wrapper pair_spec (1 / 10)) pair_action pair_world =
     env_step (self_environment (example_wrapper pair_spec (1 / 10))) pair_action
       (snd (step_action example_np (example_wrapper pair_spec (1 / 10)) pair_action pair_world)) \<and>
   arrays (snd (step_action example_np (example_wrapper pair_spec (1 / 10)) pair_action
                  pair_world)) 2 = arrays pair_world 2"
proof -
  let ?self = "example_wrapper pair_spec (1 / 10)"
  let ?X = "step_action example_np ?self pair_action pair_world"
  have 1: "0 < self_scale ?self" by (simp add: example_wrapper_def)
  have 2: "fst ?X = Inr pair_action" by code_simp
  have 3: "distinct (flatten pair_action)" by code_simp
  have 4: "arrays pair_world 0 = vec [1 / 2]" by code_simp
  have 5: "arrays (snd ?X) 0 = vec [3 / 5]" by code_simp
  have 6: "arrays pair_world 1 = vec [1 / 2, 2]" by code_simp
  have 7: "arrays (snd ?X) 1 = vec [2 / 5, 1]" by code_simp
  have 8: "?X = (Inr pair_action, snd ?X)" using 2 by (simp add: prod_eq_iff)
  have 9: "(1, BoundedArray FloatDType [2] (vec [0, 0]) (vec [1, 1])) \<in>
             set (zip (flatten pair_action) (flatten (self_action_spec ?self)))"
    by (simp add: pair_action_def example_wrapper_def pair_spec_def)
  have 10: "\<forall>s. (2, s) \<in> set (zip (flatten pair_action) (flatten (self_action_spec ?self)))
              \<longrightarrow> \<not> is_bounded s"
    by (simp add: pair_action_def example_wrapper_def pair_spec_def)
  note t = corruption_in_place [of example_np "1 / 10" "PyRandomState 7" 0 FloatDType "[1]"
      pair_world 7 "vec [0]" "vec [1]" 0 pair_world ?self pair_action pair_action "snd ?X"]
  from t 1 8 have
    a: "step example_np ?self pair_action pair_world =
          env_step (self_environment ?self) pair_action (snd ?X)" and
    b: "\<forall>x. (\<forall>s. (x, s) \<in> set (zip (flatten pair_action) (flatten (self_action_spec ?self)))
                 \<longrightarrow> \<not> is_bounded s) \<longrightarrow> arrays (snd ?X) x = arrays pair_world x" and
    c: "\<forall>a k' sh' lo' hi'.
          (a, BoundedArray k' sh' lo' hi') \<in>
            set (zip (flatten pair_action) (flatten (self_action_spec ?self))) \<longrightarrow>
          (\<exists>v. corrupted example_np (self_scale ?self) lo' hi' (arrays pair_world a) v
                 (arrays (snd ?X) a))"
    using 3 by auto
  from c 9 have "\<exists>v. corrupted example_np (self_scale ?self) (vec [0, 0]) (vec [1, 1])
                       (arrays pair_world 1) v (arrays (snd ?X) 1)"
    by blast
  moreover have "self_scale ?self = 1 / 10" by (simp add: example_wrapper_def)
  ultimately have d: "\<exists>v. corrupted example_np (1 / 10) (vec [0, 0]) (vec [1, 1]) (vec [1 / 2, 2]) v
                      (vec [2 / 5, 1])"
    by (simp only: 6 7)
  from b 10 have e: "arrays (snd ?X) 2 = arrays pair_world 2" by blast
  show ?thesis using 1 2 3 4 5 6 7 a d e by simp
qed

subsection \<open>The clip invariant\<close>




subsection \<open>A range of width zero\<close>










subsection \<open>Errors of the step itself\<close>









subsection \<open>Determinism\<close>

text \<open>
  The outcome of a corruption depends on the store only through the arrays of the action
  and the state of the generator; the references themselves do not matter.
\<close>

lemma flatten_map_nest: "flatten (map_nest f a) = map f (flatten a)"
proof (induction a)
  case (Leaf x)
  then show ?case by simp
next
  case (Node c ts)
  have e: "map (flatten \<circ> map_nest f) ts = map (map f \<circ> flatten) ts"
    using Node.IH by (intro map_cong) auto
  have "flatten (map_nest f (Node c ts)) = concat (map (flatten \<circ> map_nest f) ts)"
    by simp
  also have "\<dots> = concat (map (map f \<circ> flatten) ts)"
    by (simp only: e)
  also have "\<dots> = map f (flatten (Node c ts))"
    by (simp add: map_concat)
  finally show ?case .
qed

lemma same_structure_map_nest:
  "same_structure (map_nest f a) s = same_structure a s"
proof (induction a arbitrary: s)
  case (Leaf x)
  then show ?case by (cases s) simp_all
next
  case (Node c ts)
  note IH = Node.IH
  show ?case
  proof (cases s)
    case (Leaf y)
    then show ?thesis by simp
  next
    case s: (Node d us)
    have "list_all2 (\<lambda>t. same_structure (map_nest f t)) ts us = list_all2 same_structure ts us"
      unfolding list_all2_conv_all_nth using IH by auto
    then show ?thesis by (simp add: s list_all2_map1)
  qed
qed

lemma corrupt_action_deterministic:
  assumes "arrays w1 a1 = arrays w2 a2" and "gens w1 r1 = gens w2 r2"
    and "corrupt_action np sc (PyRandomState r1) a1 sp w1 = (res1, w1')"
    and "corrupt_action np sc (PyRandomState r2) a2 sp w2 = (res2, w2')"
  shows "arrays w1' a1 = arrays w2' a2 \<and> gens w1' r1 = gens w2' r2 \<and>
         (\<forall>e. res1 = Inl e \<longleftrightarrow> res2 = Inl e)"
proof (cases sp)
  case (Array k sh)
  then show ?thesis using assms by (auto simp: corrupt_action_def)
next
  case (BoundedArray k sh lo hi)
  show ?thesis
    using assms unfolding BoundedArray corrupt_action_def Let_def
    by (auto split: sum.splits prod.splits)
qed


lemma map_leaves_deterministic:
  assumes "map snd ps1 = map snd ps2"
    and "map (\<lambda>p. arrays w1 (fst p)) ps1 = map (\<lambda>p. arrays w2 (fst p)) ps2"
    and "distinct (map fst ps1)" and "distinct (map fst ps2)"
    and "gens w1 r1 = gens w2 r2"
    and "map_leaves (corrupt_action np sc (PyRandomState r1)) ps1 w1 = (res1, w1')"
    and "map_leaves (corrupt_action np sc (PyRandomState r2)) ps2 w2 = (res2, w2')"
  shows "(\<forall>e. res1 = Inl e \<longleftrightarrow> res2 = Inl e) \<and>
         ((\<forall>e. res1 \<noteq> Inl e) \<longrightarrow>
            map (\<lambda>p. arrays w1' (fst p)) ps1 = map (\<lambda>p. arrays w2' (fst p)) ps2 \<and> gens w1' r1 = gens w2' r2)"
  using assms
proof (induction ps1 arbitrary: ps2 w1 w2 res1 res2 w1' w2')
  case Nil
  then show ?case by auto
next
  case (Cons p1 ps1)
  from Cons.prems(1) obtain p2 qs where ps2: "ps2 = p2 # qs" by (cases ps2) auto
  obtain a1 sp where p1: "p1 = (a1, sp)" by (cases p1)
  obtain a2 where p2: "p2 = (a2, sp)" using Cons.prems(1) by (cases p2) (auto simp: ps2 p1)
  obtain x1 v1 where c1: "corrupt_action np sc (PyRandomState r1) a1 sp w1 = (x1, v1)"
    by (cases "corrupt_action np sc (PyRandomState r1) a1 sp w1")
  obtain x2 v2 where c2: "corrupt_action np sc (PyRandomState r2) a2 sp w2 = (x2, v2)"
    by (cases "corrupt_action np sc (PyRandomState r2) a2 sp w2")
  have a: "arrays w1 a1 = arrays w2 a2" using Cons.prems(2) by (simp add: ps2 p1 p2)
  from corrupt_action_deterministic [OF a Cons.prems(5) c1 c2]
  have d: "arrays v1 a1 = arrays v2 a2" "gens v1 r1 = gens v2 r2" "\<And>e. x1 = Inl e \<longleftrightarrow> x2 = Inl e"
    by auto
  show ?case
  proof (cases x1)
    case (Inl e)
    then have "x2 = Inl e" using d(3) by simp
    with Inl show ?thesis using Cons.prems(6,7) c1 c2 by (auto simp: ps2 p1 p2)
  next
    case (Inr y1)
    then obtain y2 where y2: "x2 = Inr y2" using d(3) by (cases x2) auto
    obtain z1 u1 where m1: "map_leaves (corrupt_action np sc (PyRandomState r1)) ps1 v1 = (z1, u1)"
      by (cases "map_leaves (corrupt_action np sc (PyRandomState r1)) ps1 v1")
    obtain z2 u2 where m2: "map_leaves (corrupt_action np sc (PyRandomState r2)) qs v2 = (z2, u2)"
      by (cases "map_leaves (corrupt_action np sc (PyRandomState r2)) qs v2")
    have n1: "a1 \<notin> fst ` set ps1" "distinct (map fst ps1)"
      using Cons.prems(3) by (auto simp: p1)
    have n2: "a2 \<notin> fst ` set qs" "distinct (map fst qs)"
      using Cons.prems(4) by (auto simp: ps2 p2)
    have f1: "\<forall>q \<in> set ps1. arrays v1 (fst q) = arrays w1 (fst q)"
      using c1 n1(1) by (auto intro!: corrupt_action_arrays_other)
    have f2: "\<forall>q \<in> set qs. arrays v2 (fst q) = arrays w2 (fst q)"
      using c2 n2(1) by (auto intro!: corrupt_action_arrays_other)
    have e: "map (\<lambda>p. arrays v1 (fst p)) ps1 = map (\<lambda>p. arrays v2 (fst p)) qs"
    proof -
      have "map (\<lambda>p. arrays v1 (fst p)) ps1 = map (\<lambda>p. arrays w1 (fst p)) ps1" using f1 by simp
      also have "\<dots> = map (\<lambda>p. arrays w2 (fst p)) qs" using Cons.prems(2) by (simp add: ps2)
      also have "\<dots> = map (\<lambda>p. arrays v2 (fst p)) qs" using f2 by simp
      finally show ?thesis .
    qed
    have s: "map snd ps1 = map snd qs" using Cons.prems(1) by (simp add: ps2)
    note IH = Cons.IH [OF s e n1(2) n2(2) d(2) m1 m2]
    have r1: "res1 = (case z1 of Inl e \<Rightarrow> Inl e | Inr rs \<Rightarrow> Inr (y1 # rs))" "w1' = u1"
      using Cons.prems(6) c1 m1 Inr by (auto simp: p1 split: sum.splits)
    have r2: "res2 = (case z2 of Inl e \<Rightarrow> Inl e | Inr rs \<Rightarrow> Inr (y2 # rs))" "w2' = u2"
      using Cons.prems(7) c2 m2 y2 by (auto simp: ps2 p2 split: sum.splits)
    have k1: "arrays u1 a1 = arrays v1 a1"
      using m1 n1(1) by (intro map_leaves_arrays_other) (auto simp: image_iff)
    have k2: "arrays u2 a2 = arrays v2 a2"
      using m2 n2(1) by (intro map_leaves_arrays_other) (auto simp: image_iff)
    show ?thesis
      using IH d(1) k1 k2 by (auto simp: r1 r2 ps2 p1 p2 split: sum.splits)
  qed
qed

lemma map_nest_list_eq_from_flat:
  assumes "\<And>t b. t \<in> set ts \<Longrightarrow> map_nest f t = map_nest g b \<Longrightarrow>
             map f' (flatten t) = map g' (flatten b) \<Longrightarrow> map_nest f' t = map_nest g' b"
    and "map (map_nest f) ts = map (map_nest g) us"
    and "map f' (concat (map flatten ts)) = map g' (concat (map flatten us))"
  shows "map (map_nest f') ts = map (map_nest g') us"
  using assms
proof (induction ts arbitrary: us)
  case Nil
  then show ?case by simp
next
  case (Cons t ts)
  from Cons.prems(2) obtain u us' where us: "us = u # us'" by (cases us) auto
  have h: "map_nest f t = map_nest g u" and tl: "map (map_nest f) ts = map (map_nest g) us'"
    using Cons.prems(2) by (simp_all add: us)
  have "length (flatten (map_nest f t)) = length (flatten (map_nest g u))" using h by simp
  then have l: "length (map f' (flatten t)) = length (map g' (flatten u))"
    by (simp add: flatten_map_nest)
  have c: "map f' (flatten t) @ map f' (concat (map flatten ts)) =
        map g' (flatten u) @ map g' (concat (map flatten us'))"
    using Cons.prems(3) by (simp add: us)
  have e: "map f' (flatten t) = map g' (flatten u)"
    "map f' (concat (map flatten ts)) = map g' (concat (map flatten us'))"
    using c l
      append_eq_append_conv [of "map f' (flatten t)" "map g' (flatten u)"
        "map f' (concat (map flatten ts))" "map g' (concat (map flatten us'))"]
    by blast+
  have "map_nest f' t = map_nest g' u"
    using Cons.prems(1) [of t u] h e(1) by simp
  moreover have "map (map_nest f') ts = map (map_nest g') us'"
    using Cons.IH [OF _ tl e(2)] Cons.prems(1) by simp
  ultimately show ?case by (simp add: us)
qed

lemma map_nest_eq_from_flat:
  "map_nest f a = map_nest g b \<Longrightarrow> map f' (flatten a) = map g' (flatten b) \<Longrightarrow>
   map_nest f' a = map_nest g' b"
proof (induction a arbitrary: b)
  case (Leaf x)
  then show ?case by (cases b) auto
next
  case (Node c ts)
  from Node.prems(1) obtain us where b: "b = Node c us"
    and m: "map (map_nest f) ts = map (map_nest g) us"
    by (cases b) auto
  have "map (map_nest f') ts = map (map_nest g') us"
    using Node.IH m Node.prems(2) unfolding b flatten.simps
    by (rule map_nest_list_eq_from_flat)
  then show ?case by (simp add: b)
qed

lemma same_structure_read_action:
  assumes "read_action w1 a1 = read_action w2 a2"
  shows "same_structure a1 s = same_structure a2 s"
    and "map (arrays w1) (flatten a1) = map (arrays w2) (flatten a2)"
proof -
  have "same_structure (map_nest (arrays w1) a1) s = same_structure (map_nest (arrays w2) a2) s"
    using assms by (simp add: read_action_def)
  then show "same_structure a1 s = same_structure a2 s"
    by (simp add: same_structure_map_nest)
  have "flatten (map_nest (arrays w1) a1) = flatten (map_nest (arrays w2) a2)"
    using assms by (simp add: read_action_def)
  then show "map (arrays w1) (flatten a1) = map (arrays w2) (flatten a2)"
    by (simp add: flatten_map_nest)
qed


lemma step_action_arrays_outside:
  assumes "step_action np self a w = (res, w')" and "x \<notin> set (flatten a)"
  shows "arrays w' x = arrays w x"
proof -
  have "\<forall>s. (x, s) \<in> set (zip (flatten a) (flatten (self_action_spec self))) \<longrightarrow> \<not> is_bounded s"
    using assms(2) by (auto dest: set_zip_leftD)
  with assms(1) show ?thesis by (rule step_action_arrays_other)
qed

lemma step_action_deterministic:
  assumes "self_scale s1 = self_scale s2" and "self_action_spec s1 = self_action_spec s2"
    and "self_random_state s1 = PyRandomState r1" and "self_random_state s2 = PyRandomState r2"
    and "gens w1 r1 = gens w2 r2"
    and "read_action w1 a1 = read_action w2 a2"
    and "distinct (flatten a1)" and "distinct (flatten a2)"
    and "step_action np s1 a1 w1 = (res1, w1')"
    and "step_action np s2 a2 w2 = (res2, w2')"
  shows "(\<forall>e. res1 = Inl e \<longleftrightarrow> res2 = Inl e) \<and>
         ((\<forall>e. res1 \<noteq> Inl e) \<longrightarrow>
            res1 = Inr a1 \<and> res2 = Inr a2 \<and> read_action w1' a1 = read_action w2' a2 \<and>
            gens w1' r1 = gens w2' r2)"
proof (cases "0 < self_scale s1")
  case False
  then show ?thesis
    using assms by (auto simp: step_action_def)
next
  case True
  let ?sp = "self_action_spec s1" and ?sc = "self_scale s1"
  have c1: "corrupt_nested_action np a1 ?sp ?sc (PyRandomState r1) w1 = (res1, w1')"
    using assms(3,9) True by (simp add: step_action_def)
  have c2: "corrupt_nested_action np a2 ?sp ?sc (PyRandomState r2) w2 = (res2, w2')"
    using assms(1,2,4,10) True by (simp add: step_action_def)
  have ss: "same_structure a1 ?sp = same_structure a2 ?sp"
    by (rule same_structure_read_action(1) [OF assms(6)])
  have rv: "map (arrays w1) (flatten a1) = map (arrays w2) (flatten a2)"
    by (rule same_structure_read_action(2) [OF assms(6)])
  show ?thesis
  proof (cases "same_structure a1 ?sp")
    case False
    then have "\<not> same_structure a2 ?sp" using ss by simp
    with False c1 c2 show ?thesis
      by (auto simp: corrupt_nested_action_def map_structure_def)
  next
    case s1: True
    then have s2: "same_structure a2 ?sp" using ss by simp
    let ?ps1 = "zip (flatten a1) (flatten ?sp)" and ?ps2 = "zip (flatten a2) (flatten ?sp)"
    note l1 = same_structure_length [OF s1] and l2 = same_structure_length [OF s2]
    obtain z1 u1 where m1: "map_leaves (corrupt_action np ?sc (PyRandomState r1)) ?ps1 w1 = (z1, u1)"
      by (cases "map_leaves (corrupt_action np ?sc (PyRandomState r1)) ?ps1 w1")
    obtain z2 u2 where m2: "map_leaves (corrupt_action np ?sc (PyRandomState r2)) ?ps2 w2 = (z2, u2)"
      by (cases "map_leaves (corrupt_action np ?sc (PyRandomState r2)) ?ps2 w2")
    have f1: "map fst ?ps1 = flatten a1" and f2: "map fst ?ps2 = flatten a2"
      using l1 l2 by simp_all
    have h1: "map snd ?ps1 = map snd ?ps2" using l1 l2 by simp
    have v: "\<And>w. map (\<lambda>p. arrays w (fst p)) ?ps1 = map (arrays w) (flatten a1)"
      "\<And>w. map (\<lambda>p. arrays w (fst p)) ?ps2 = map (arrays w) (flatten a2)"
      using f1 f2 by (metis (no_types, lifting) map_map comp_def map_eq_conv)+
    have h2: "map (\<lambda>p. arrays w1 (fst p)) ?ps1 = map (\<lambda>p. arrays w2 (fst p)) ?ps2"
      using rv by (simp only: v)
    have h3: "distinct (map fst ?ps1)" "distinct (map fst ?ps2)"
      using assms(7,8) by (simp_all only: f1 f2)
    note d = map_leaves_deterministic [OF h1 h2 h3 assms(5) m1 m2]
    have r1: "res1 = (case z1 of Inl e \<Rightarrow> Inl e | Inr xs \<Rightarrow> Inr (unflatten_as ?sp xs))" "w1' = u1"
      using c1 s1 m1 by (auto simp: corrupt_nested_action_def map_structure_def split: sum.splits)
    have r2: "res2 = (case z2 of Inl e \<Rightarrow> Inl e | Inr xs \<Rightarrow> Inr (unflatten_as ?sp xs))" "w2' = u2"
      using c2 s2 m2 by (auto simp: corrupt_nested_action_def map_structure_def split: sum.splits)
    have o: "\<forall>e. res1 = Inl e \<longleftrightarrow> res2 = Inl e"
      using d by (auto simp: r1 r2 split: sum.splits)
    have "res1 = Inr a1 \<and> res2 = Inr a2 \<and> read_action w1' a1 = read_action w2' a2 \<and>
          gens w1' r1 = gens w2' r2" if n: "\<forall>e. res1 \<noteq> Inl e"
    proof -
      from n obtain b1 where b1: "res1 = Inr b1" by (cases res1) auto
      from n o obtain b2 where b2: "res2 = Inr b2" by (cases res2) auto
      have e1: "b1 = a1" using c1 unfolding b1 by (rule corrupt_nested_action_ref)
      have e2: "b2 = a2" using c2 unfolding b2 by (rule corrupt_nested_action_ref)
      have nz: "\<forall>e. z1 \<noteq> Inl e" using b1 by (auto simp: r1)
      from d nz have
        dv: "map (\<lambda>p. arrays u1 (fst p)) ?ps1 = map (\<lambda>p. arrays u2 (fst p)) ?ps2" and
        dg: "gens u1 r1 = gens u2 r2"
        by simp_all
      from dv have "map (arrays w1') (flatten a1) = map (arrays w2') (flatten a2)"
        by (simp only: v r1(2) r2(2))
      with assms(6) have "read_action w1' a1 = read_action w2' a2"
        unfolding read_action_def by (rule map_nest_eq_from_flat)
      then show ?thesis using b1 b2 e1 e2 dg by (simp add: r1(2) r2(2))
    qed
    with o show ?thesis by blast
  qed
qed

lemma set_flatten: "set (flatten a) = set_nest a"
  by (induction a) auto

lemma read_action_cong:
  assumes "\<forall>x \<in> set (flatten b). arrays v x = arrays w x"
  shows "read_action v b = read_action w b"
  unfolding read_action_def using assms by (intro nest.map_cong) (auto simp: set_flatten)

lemma feed_deterministic:
  assumes "self_scale s1 = self_scale s2" and "self_action_spec s1 = self_action_spec s2"
    and "self_random_state s1 = PyRandomState r1" and "self_random_state s2 = PyRandomState r2"
    and "gens w1 r1 = gens w2 r2"
    and "map (read_action w1) as1 = map (read_action w2) as2"
    and "distinct (concat (map flatten as1))" and "distinct (concat (map flatten as2))"
  shows "fst (feed np s1 as1 w1) = fst (feed np s2 as2 w2)"
  using assms(5-8)
proof (induction as1 arbitrary: as2 w1 w2)
  case Nil
  then show ?case by simp
next
  case (Cons a1 as1)
  from Cons.prems(2) obtain a2 bs where as2: "as2 = a2 # bs" by (cases as2) auto
  have ra: "read_action w1 a1 = read_action w2 a2"
    and rr: "map (read_action w1) as1 = map (read_action w2) bs"
    using Cons.prems(2) by (simp_all add: as2)
  have d1: "distinct (flatten a1)" "distinct (concat (map flatten as1))"
    "\<forall>b \<in> set as1. \<forall>x \<in> set (flatten b). x \<notin> set (flatten a1)"
    using Cons.prems(3) by auto
  have d2: "distinct (flatten a2)" "distinct (concat (map flatten bs))"
    "\<forall>b \<in> set bs. \<forall>x \<in> set (flatten b). x \<notin> set (flatten a2)"
    using Cons.prems(4) by (auto simp: as2)
  obtain x1 v1 where c1: "step_action np s1 a1 w1 = (x1, v1)"
    by (cases "step_action np s1 a1 w1")
  obtain x2 v2 where c2: "step_action np s2 a2 w2 = (x2, v2)"
    by (cases "step_action np s2 a2 w2")
  note d = step_action_deterministic
    [OF assms(1-4) Cons.prems(1) ra d1(1) d2(1) c1 c2]
  show ?case
  proof (cases x1)
    case (Inl e)
    then have "x2 = Inl e" using d by simp
    with Inl c1 c2 show ?thesis by (simp add: as2)
  next
    case (Inr y)
    then have n: "\<forall>e. x1 \<noteq> Inl e" by simp
    with d have x: "x1 = Inr a1" "x2 = Inr a2" and
      o: "read_action v1 a1 = read_action v2 a2" and g: "gens v1 r1 = gens v2 r2"
      by simp_all
    have k1: "map (read_action v1) as1 = map (read_action w1) as1"
      using d1(3) step_action_arrays_outside [OF c1]
      by (intro map_cong refl read_action_cong) auto
    have k2: "map (read_action v2) bs = map (read_action w2) bs"
      using d2(3) step_action_arrays_outside [OF c2]
      by (intro map_cong refl read_action_cong) auto
    have "map (read_action v1) as1 = map (read_action v2) bs"
      using rr by (simp only: k1 k2)
    from Cons.IH [OF g this d1(2) d2(2)]
    have "fst (feed np s1 as1 v1) = fst (feed np s2 bs v2)" .
    then show ?thesis
      using c1 c2 x o by (auto simp: as2 split: prod.splits sum.splits)
  qed
qed

lemma init_seeded:
  assumes "init np entropy environment scale (PyInt n) w = (Inr self, v)"
  shows "self_scale self = scale \<and> self_action_spec self = env_action_spec environment \<and>
         self_random_state self = PyRandomState (next_gen w) \<and> arrays v = arrays w \<and>
         (\<exists>g. seed_state np n = Some g \<and> gens v (next_gen w) = g)"
  using assms
  by (auto simp: init_def resolve_random_state_def new_RandomState_def
      split: if_splits option.splits)

text \<open>
  C5. Two wrappers constructed with the same integer seed and the same scale, over
  environments with the same action specification, each in its own store, and fed the same
  sequence of actions (the same nests of array values, every action made of arrays of its
  own): the two runs end alike, with the same sequence of corrupted actions or with the
  same error.
\<close>

theorem seeded_determinism:
  assumes "init np entropy1 env1 scale (PyInt n) w1 = (Inr self1, v1)"
    and "init np entropy2 env2 scale (PyInt n) w2 = (Inr self2, v2)"
    and "env_action_spec env1 = env_action_spec env2"
    and "map (read_action w1) as1 = map (read_action w2) as2"
    and "distinct (concat (map flatten as1))" and "distinct (concat (map flatten as2))"
  shows "fst (feed np self1 as1 v1) = fst (feed np self2 as2 v2)"
proof -
  note i1 = init_seeded [OF assms(1)] and i2 = init_seeded [OF assms(2)]
  have "arrays v1 = arrays w1" "arrays v2 = arrays w2"
    using i1 i2 by simp_all
  then have r: "read_action v1 = read_action w1" "read_action v2 = read_action w2"
    by (simp_all add: read_action_def [abs_def])
  show ?thesis
  proof (rule feed_deterministic)
    show "self_scale self1 = self_scale self2" using i1 i2 by simp
    show "self_action_spec self1 = self_action_spec self2" using i1 i2 assms(3) by simp
    show "self_random_state self1 = PyRandomState (next_gen w1)" using i1 by simp
    show "self_random_state self2 = PyRandomState (next_gen w2)" using i2 by simp
    show "gens v1 (next_gen w1) = gens v2 (next_gen w2)" using i1 i2 by auto
    show "map (read_action v1) as1 = map (read_action v2) as2" using assms(4) by (simp add: r)
  qed (fact assms(5), fact assms(6))
qed

theorem seeded_determinism_witness:
  "init example_np 7 example_env (1 / 10) (PyInt 2) example_world =
     (Inr (example_wrapper (Leaf unit_spec) (1 / 10)\<lparr>self_environment := example_env,
             self_random_state := PyRandomState 0\<rparr>),
      example_world\<lparr>gens := (gens example_world)(0 := 2), next_gen := 1\<rparr>) \<and>
   init example_np 9 example_env (1 / 10) (PyInt 2) other_world =
     (Inr (example_wrapper (Leaf unit_spec) (1 / 10)\<lparr>self_environment := example_env,
             self_random_state := PyRandomState 5\<rparr>),
      other_world\<lparr>gens := (gens other_world)(5 := 2), next_gen := 6\<rparr>) \<and>
   map (read_action example_world) run_a = map (read_action other_world) run_b \<and>
   distinct (concat (map flatten run_a)) \<and> distinct (concat (map flatten run_b)) \<and>
   fst (feed example_np
          (example_wrapper (Leaf unit_spec) (1 / 10)\<lparr>self_environment := example_env,
             self_random_state := PyRandomState 0\<rparr>)
          run_a (example_world\<lparr>gens := (gens example_world)(0 := 2), next_gen := 1\<rparr>)) =
     Inr [Leaf (vec [3 / 5]), Leaf (vec [2 / 5])] \<and>
   fst (feed example_np
          (example_wrapper (Leaf unit_spec) (1 / 10)\<lparr>self_environment := example_env,
             self_random_state := PyRandomState 5\<rparr>)
          run_b (other_world\<lparr>gens := (gens other_world)(5 := 2), next_gen := 6\<rparr>)) =
     Inr [Leaf (vec [3 / 5]), Leaf (vec [2 / 5])]"
proof -
  let ?s1 = "example_wrapper (Leaf unit_spec) (1 / 10)\<lparr>self_environment := example_env,
               self_random_state := PyRandomState 0\<rparr>"
  let ?s2 = "example_wrapper (Leaf unit_spec) (1 / 10)\<lparr>self_environment := example_env,
               self_random_state := PyRandomState 5\<rparr>"
  let ?v1 = "example_world\<lparr>gens := (gens example_world)(0 := 2), next_gen := 1\<rparr>"
  let ?v2 = "other_world\<lparr>gens := (gens other_world)(5 := 2), next_gen := 6\<rparr>"
  have 1: "init example_np 7 example_env (1 / 10) (PyInt 2) example_world = (Inr ?s1, ?v1)"
    by (simp add: init_def resolve_random_state_def new_RandomState_def example_np_def
        example_world_def example_wrapper_def example_env_def)
  have 2: "init example_np 9 example_env (1 / 10) (PyInt 2) other_world = (Inr ?s2, ?v2)"
    by (simp add: init_def resolve_random_state_def new_RandomState_def example_np_def
        other_world_def example_wrapper_def example_env_def)
  have 3: "map (read_action example_world) run_a = map (read_action other_world) run_b"
    by (simp add: read_action_def run_a_def run_b_def example_world_def other_world_def)
  have 4: "distinct (concat (map flatten run_a))" by (simp add: run_a_def)
  have 5: "distinct (concat (map flatten run_b))" by (simp add: run_b_def)
  have 6: "fst (feed example_np ?s1 run_a ?v1) = Inr [Leaf (vec [3 / 5]), Leaf (vec [2 / 5])]"
    by code_simp
  have "fst (feed example_np ?s2 run_b ?v2) = Inr [Leaf (vec [3 / 5]), Leaf (vec [2 / 5])]"
    using seeded_determinism [OF 1 2 refl 3 4 5] 6 by simp
  with 1 2 3 4 5 6 show ?thesis by simp
qed

end
